theory Spec2Isabelle
  imports Main
begin

section \<open>Byte strings, struct packing and file objects\<close>

text \<open>
  The cache of \<^verbatim>\<open>ZEO/ClientCache.py\<close> keeps its records in two files and an in-memory
  index from object ids to signed file offsets. Python 2 byte strings are modelled as
  \<open>string\<close> (a list of 8-bit characters), Python integers as \<open>int\<close>, lengths and file
  positions as \<open>nat\<close>.
\<close>

type_synonym bytes = string

datatype error = AttributeError | TypeError | StructError | IOError | KeyError

definition magic :: bytes where
  "magic = ''ZEC0''"

definition zero_byte :: char where
  "zero_byte = char_of (0::nat)"

definition zeros8 :: bytes where
  "zeros8 = replicate 8 zero_byte"

text \<open>
  \<open>pack_be k n\<close> is the big-endian encoding of \<open>n\<close> on \<open>k\<close> bytes, \<open>unpack_be\<close> reads a
  big-endian unsigned number. \<open>pack(">I", n)\<close> is \<open>pack_be 4 n\<close> and \<open>pack(">H", n)\<close> is
  \<open>pack_be 2 n\<close>; the callers check the range first, since \<open>struct\<close> rejects a value that
  does not fit the field. \<open>unpack(">i", b)\<close> reads four bytes as a two's complement number.
\<close>

fun pack_be :: "nat \<Rightarrow> nat \<Rightarrow> bytes" where
  "pack_be 0 n = []"
| "pack_be (Suc k) n = pack_be k (n div 256) @ [char_of (n mod 256)]"

definition unpack_be :: "bytes \<Rightarrow> nat" where
  "unpack_be bs = foldl (\<lambda>a c. a * 256 + of_char c) 0 bs"

definition unpack_H :: "bytes \<Rightarrow> int" where
  "unpack_H bs = int (unpack_be bs)"

definition unpack_i :: "bytes \<Rightarrow> int" where
  "unpack_i bs = (let v = int (unpack_be bs) in if v \<ge> 2 ^ 31 then v - 2 ^ 32 else v)"

text \<open>
  A file object is its contents and its current position. \<open>seek(n)\<close> with \<open>n \<ge> 0\<close> is
  \<open>seek\<close>; \<open>seek(d, 1)\<close> moves relative to the current position and raises \<open>IOError\<close> when
  the target is negative (\<open>seek_cur_ok\<close> is that test); \<open>read(n)\<close> returns at most \<open>n\<close>
  bytes, everything up to the end of the file when \<open>n\<close> is negative, and fewer than \<open>n\<close>
  bytes at the end of the file; \<open>write\<close> (here \<open>write_file\<close>) overwrites at the
  position and extends the file, filling a gap past the end with zero bytes.
\<close>

record pyfile =
  content :: bytes
  fpos :: nat

definition seek :: "nat \<Rightarrow> pyfile \<Rightarrow> pyfile" where
  "seek n f = f\<lparr>fpos := n\<rparr>"

definition seek_cur_ok :: "int \<Rightarrow> pyfile \<Rightarrow> bool" where
  "seek_cur_ok d f = (0 \<le> int (fpos f) + d)"

definition seek_cur :: "int \<Rightarrow> pyfile \<Rightarrow> pyfile" where
  "seek_cur d f = f\<lparr>fpos := nat (int (fpos f) + d)\<rparr>"

definition read :: "int \<Rightarrow> pyfile \<Rightarrow> bytes \<times> pyfile" where
  "read n f =
     (let avail = drop (fpos f) (content f);
          bs = (if n < 0 then avail else take (nat n) avail)
      in (bs, f\<lparr>fpos := fpos f + length bs\<rparr>))"

definition write_file :: "bytes \<Rightarrow> pyfile \<Rightarrow> pyfile" where
  "write_file d f =
     (if d = [] then f
      else f\<lparr>content := take (fpos f) (content f)
                          @ replicate (fpos f - length (content f)) zero_byte
                          @ d
                          @ drop (fpos f + length d) (content f),
              fpos := fpos f + length d\<rparr>)"

text \<open>\<open>open(path, 'w+b')\<close> and \<open>tempfile.TemporaryFile\<close> both give an empty file.\<close>

definition new_file :: pyfile where
  "new_file = \<lparr>content = [], fpos = 0\<rparr>"

section \<open>The cache controller\<close>

text \<open>
  The fields of \<open>ClientCache\<close> after \<open>open()\<close>. The source indexes the two-element lists
  \<open>self._f\<close> and \<open>self._p\<close> with booleans (\<open>self._f[p < 0]\<close>, \<open>self._f[not current]\<close>), so
  they are functions on \<open>bool\<close> here: \<open>False\<close> is file 0 and \<open>True\<close> is file 1. A closed or
  absent file is \<open>None\<close>. The index is the dictionary \<open>self._index\<close>.
\<close>

record cache =
  self_f :: "bool \<Rightarrow> pyfile option"
  self_p :: "bool \<Rightarrow> string option"
  self_limit :: int
  self_current :: bool
  self_pos :: nat
  self_index :: "bytes \<rightharpoonup> int"

definition set_f :: "bool \<Rightarrow> pyfile \<Rightarrow> cache \<Rightarrow> cache" where
  "set_f b f st = st\<lparr>self_f := (self_f st)(b := Some f)\<rparr>"

definition del_index :: "bytes \<Rightarrow> cache \<Rightarrow> cache" where
  "del_index oid st = st\<lparr>self_index := (self_index st)(oid := None)\<rparr>"

text \<open>
  \<open>_store\<close>: every exception it can raise (the length of \<open>None\<close>, a value that does not
  fit its field, joining \<open>None\<close>, a file that is \<open>None\<close>) comes before its first
  mutation, so a failing call leaves the state as it was.
\<close>

definition store_record :: "bytes \<Rightarrow> bytes \<Rightarrow> bytes \<Rightarrow> bytes \<Rightarrow> bytes \<Rightarrow> bytes \<Rightarrow> nat \<Rightarrow> bytes" where
  "store_record oid p s version pv sv tlen =
     oid @ ''v'' @ pack_be 4 tlen
       @ (pack_be 2 (if version \<noteq> [] then length version else 0) @ pack_be 4 (length p))
       @ s
       @ (if p \<noteq> [] then p else [])
       @ (if version \<noteq> [] then version @ pack_be 4 (length pv) @ pv @ sv else [])
       @ pack_be 4 tlen"

definition store_internal ::
  "bytes \<Rightarrow> bytes \<Rightarrow> bytes \<Rightarrow> bytes \<Rightarrow> bytes option \<Rightarrow> bytes option \<Rightarrow> cache
     \<Rightarrow> (error + unit) \<times> cache" where
  "store_internal oid p0 s0 version pv sv st =
     (let p = (if s0 = [] then [] else p0);
          s = (if s0 = [] then zeros8 else s0)
      in if version \<noteq> [] \<and> pv = None then (Inl TypeError, st)
         else
           let pvb = (case pv of None \<Rightarrow> [] | Some b \<Rightarrow> b);
               tlen = (if version \<noteq> [] then 31 + length p + length version + 12 + length pvb
                       else 31 + length p);
               vlen = (if version \<noteq> [] then length version else 0)
           in if tlen \<ge> 2 ^ 32 \<or> vlen \<ge> 2 ^ 16 \<or> length p \<ge> 2 ^ 32
                 \<or> (version \<noteq> [] \<and> length pvb \<ge> 2 ^ 32)
              then (Inl StructError, st)
              else if version \<noteq> [] \<and> sv = None then (Inl TypeError, st)
              else
                (case self_f st (self_current st) of
                   None \<Rightarrow> (Inl AttributeError, st)
                 | Some f \<Rightarrow>
                     let svb = (case sv of None \<Rightarrow> [] | Some b \<Rightarrow> b);
                         f = seek (self_pos st) f;
                         f = write_file (store_record oid p s version pvb svb tlen) f;
                         st = set_f (self_current st) f st;
                         st = st\<lparr>self_index := (self_index st)
                                  (oid \<mapsto> (if self_current st then - int (self_pos st)
                                            else int (self_pos st)))\<rparr>
                     in (Inr (), st\<lparr>self_pos := self_pos st + tlen\<rparr>)))"

definition store ::
  "bytes \<Rightarrow> bytes \<Rightarrow> bytes \<Rightarrow> bytes \<Rightarrow> bytes option \<Rightarrow> bytes option \<Rightarrow> cache
     \<Rightarrow> (error + unit) \<times> cache" where
  "store oid p s version pv sv st = store_internal oid p s version pv sv st"

text \<open>
  The 27-byte header test shared by \<open>load\<close>, \<open>update\<close> and \<open>modifiedInVersion\<close>:
  \<open>len(h)==27 and h[8] in 'nv' and h[:8]==oid\<close>, and the three fields
  \<open>unpack(">iHi", h[9:19])\<close>.
\<close>

definition header_ok :: "bytes \<Rightarrow> bytes \<Rightarrow> bool" where
  "header_ok h oid = (length h = 27 \<and> h ! 8 \<in> set ''nv'' \<and> take 8 h = oid)"

definition h_tlen :: "bytes \<Rightarrow> int" where
  "h_tlen h = unpack_i (take 4 (drop 9 h))"

definition h_vlen :: "bytes \<Rightarrow> int" where
  "h_vlen h = unpack_H (take 2 (drop 13 h))"

definition h_dlen :: "bytes \<Rightarrow> int" where
  "h_dlen h = unpack_i (take 4 (drop 15 h))"

text \<open>
  \<open>load\<close> returns \<open>None\<close> or a pair \<open>(data, serial)\<close>. When the header test fails the
  source sets \<open>tlen = -1\<close> and leaves \<open>vlen\<close> and \<open>dlen\<close> unbound; the \<open>or\<close> chain stops at
  \<open>tlen <= 0\<close> then, so their values here are never looked at in that case.
\<close>

definition load ::
  "bytes \<Rightarrow> bytes \<Rightarrow> cache \<Rightarrow> (error + (bytes \<times> bytes) option) \<times> cache" where
  "load oid version st =
     (case self_index st oid of
        None \<Rightarrow> (Inr None, st)
      | Some p \<Rightarrow>
          (case self_f st (p < 0) of
             None \<Rightarrow> (Inl AttributeError, st)
           | Some f0 \<Rightarrow>
               let f = seek (nat \<bar>p\<bar>) f0;
                   (h, f) = read 27 f;
                   tlen = (if header_ok h oid then h_tlen h else - 1);
                   vlen = h_vlen h;
                   dlen = h_dlen h
               in if tlen \<le> 0 \<or> vlen < 0 \<or> dlen < 0 \<or> vlen + dlen > tlen
                  then (Inr None, del_index oid (set_f (p < 0) f st))
                  else if h ! 8 = CHR ''n'' \<and> version \<noteq> []
                  then (Inr None, set_f (p < 0) f st)
                  else if h ! 8 = CHR ''n'' \<and> dlen = 0
                  then (Inr None, del_index oid (set_f (p < 0) f st))
                  else if vlen = 0 \<or> version = []
                  then (if dlen \<noteq> 0
                        then let (d, f) = read dlen f
                             in (Inr (Some (d, drop 19 h)), set_f (p < 0) f st)
                        else (Inr None, set_f (p < 0) f st))
                  else
                    let f = (if dlen \<noteq> 0 then seek_cur dlen f else f);
                        (v, f) = read vlen f
                    in if version \<noteq> v
                       then (if dlen \<noteq> 0
                             then (if \<not> seek_cur_ok (- dlen - vlen) f
                                   then (Inl IOError, set_f (p < 0) f st)
                                   else let f = seek_cur (- dlen - vlen) f;
                                            (d, f) = read dlen f
                                        in (Inr (Some (d, drop 19 h)), set_f (p < 0) f st))
                             else (Inr None, set_f (p < 0) f st))
                       else
                         let (b4, f) = read 4 f
                         in if length b4 \<noteq> 4 then (Inl StructError, set_f (p < 0) f st)
                            else let vdlen = unpack_i b4;
                                     (vd, f) = read vdlen f;
                                     (vs, f) = read 8 f
                                 in (Inr (Some (vd, vs)), set_f (p < 0) f st)))"

text \<open>
  \<open>invalidate\<close>: after \<open>f.seek(ap)\<close> and \<open>f.read(8)\<close> the source calls \<open>f.seek(8, 1)\<close>, a
  seek relative to the current position, as the \<open>seek(dlen, 1)\<close> of \<open>load\<close> is.
\<close>

definition invalidate :: "bytes \<Rightarrow> bytes \<Rightarrow> cache \<Rightarrow> (error + unit) \<times> cache" where
  "invalidate oid version st =
     (case self_index st oid of
        None \<Rightarrow> (Inr (), st)
      | Some p \<Rightarrow>
          (case self_f st (p < 0) of
             None \<Rightarrow> (Inl AttributeError, st)
           | Some f0 \<Rightarrow>
               let f = seek (nat \<bar>p\<bar>) f0;
                   (h, f) = read 8 f
               in if h \<noteq> oid then (Inr (), set_f (p < 0) f st)
                  else
                    let f = seek_cur 8 f
                    in if version \<noteq> []
                       then (Inr (), set_f (p < 0) (write_file ''n'' f) st)
                       else (Inr (), set_f (p < 0) (write_file ''i'' f) (del_index oid st))))"

text \<open>
  \<open>update(oid, serial, version, data)\<close>. The last \<open>else\<close> of the versioned branch
  (\<open>dlen\<close> zero) cannot be reached after the test \<open>dlen <= 0\<close>; it is kept as written.
\<close>

definition update :: "bytes \<Rightarrow> bytes \<Rightarrow> bytes \<Rightarrow> bytes \<Rightarrow> cache \<Rightarrow> (error + unit) \<times> cache" where
  "update oid serial version data st =
     (if version \<noteq> []
      then
        (case self_index st oid of
           None \<Rightarrow> store_internal oid [] [] version (Some data) (Some serial) st
         | Some p \<Rightarrow>
             (case self_f st (p < 0) of
                None \<Rightarrow> (Inl AttributeError, st)
              | Some f0 \<Rightarrow>
                  let f = seek (nat \<bar>p\<bar>) f0;
                      (h, f) = read 27 f
                  in if \<not> header_ok h oid
                     then store_internal oid [] [] version (Some data) (Some serial)
                            (set_f (p < 0) f st)
                     else
                       let tlen = h_tlen h; vlen = h_vlen h; dlen = h_dlen h
                       in if tlen \<le> 0 \<or> vlen < 0 \<or> dlen \<le> 0 \<or> vlen + dlen > tlen
                          then store_internal oid [] [] version (Some data) (Some serial)
                                 (set_f (p < 0) f st)
                          else if dlen \<noteq> 0
                          then let (p', f) = read dlen f;
                                   s = drop 19 h
                               in store_internal oid p' s version (Some data) (Some serial)
                                    (set_f (p < 0) f st)
                          else store_internal oid [] [] version (Some data) (Some serial)
                                 (set_f (p < 0) f st)))
      else store_internal oid data serial [] None None st)"

text \<open>\<open>modifiedInVersion\<close> returns \<open>None\<close>, the empty string or the version name.\<close>

definition modifiedInVersion :: "bytes \<Rightarrow> cache \<Rightarrow> (error + bytes option) \<times> cache" where
  "modifiedInVersion oid st =
     (case self_index st oid of
        None \<Rightarrow> (Inr None, st)
      | Some p \<Rightarrow>
          (case self_f st (p < 0) of
             None \<Rightarrow> (Inl AttributeError, st)
           | Some f0 \<Rightarrow>
               let f = seek (nat \<bar>p\<bar>) f0;
                   (h, f) = read 27 f;
                   tlen = (if header_ok h oid then h_tlen h else - 1);
                   vlen = h_vlen h;
                   dlen = h_dlen h
               in if tlen \<le> 0 \<or> vlen < 0 \<or> dlen < 0 \<or> vlen + dlen > tlen
                  then (Inr None, del_index oid (set_f (p < 0) f st))
                  else if h ! 8 = CHR ''n''
                  then (Inr None, set_f (p < 0) f st)
                  else if vlen = 0
                  then (Inr (Some []), set_f (p < 0) f st)
                  else
                    let f = seek_cur dlen f;
                        (v, f) = read vlen f
                    in (Inr (Some v), set_f (p < 0) f st)))"

text \<open>
  \<open>checkSize\<close>: when the record would pass the limit, the other file becomes the current
  one and is replaced by a new file (a reopened persistent file or a new temporary file)
  that holds the magic string. Failures of the operating system in \<open>open\<close> are not modelled.
\<close>

definition checkSize :: "int \<Rightarrow> cache \<Rightarrow> cache" where
  "checkSize size' st =
     (if int (self_pos st) + size' > self_limit st
      then
        let current = \<not> self_current st;
            st = st\<lparr>self_current := current\<rparr>;
            st = (if self_p st current \<noteq> None
                  then set_f current new_file st
                  else set_f current new_file st);
            st = (case self_f st current of
                    None \<Rightarrow> st
                  | Some f \<Rightarrow> set_f current (write_file magic f) st)
        in st\<lparr>self_pos := 4\<rparr>
      else st)"

section \<open>Construction and the index scanner\<close>

text \<open>
  \<open>__init__\<close> without a client name: file 0 is a temporary file that holds the magic
  string, file 1 is absent, and the limit is half the size (\<open>size / 2\<close> on Python 2
  integers rounds down). \<open>self._pos\<close> and \<open>self._index\<close> do not exist before \<open>open()\<close>
  sets them; the placeholders here are overwritten there.
\<close>

definition init_temp :: "int \<Rightarrow> cache" where
  "init_temp size' =
     \<lparr>self_f = (\<lambda>b. if b then None else Some (write_file magic new_file)),
      self_p = (\<lambda>b. None),
      self_limit = size' div 2,
      self_current = False,
      self_pos = 0,
      self_index = Map.empty\<rparr>"

text \<open>
  One turn of the \<open>while 1\<close> loop of \<open>read_index\<close> at position \<open>pos\<close>: \<open>Stop\<close> is
  \<open>break\<close>, \<open>Fail\<close> an exception, \<open>Continue\<close> the updated dictionaries and the next
  position. The file is only read in the loop, so the turn does not return it.
  \<open>scan_enter\<close> is the part of the loop body after the version check.
\<close>

type_synonym serials = "bytes \<rightharpoonup> bytes \<times> bytes option"

datatype scan = Stop | Fail error | Continue "bytes \<rightharpoonup> int" serials nat

definition scan_enter ::
  "(bytes \<rightharpoonup> int) \<Rightarrow> serials \<Rightarrow> bool \<Rightarrow> nat \<Rightarrow> bytes \<Rightarrow> bytes \<Rightarrow> bytes option \<Rightarrow> int \<Rightarrow> scan" where
  "scan_enter index serial current pos oid h vs tlen =
     (if h ! 8 \<in> set ''vn''
      then Continue (index(oid \<mapsto> (if current then - int pos else int pos)))
                    (serial(oid \<mapsto> (drop 19 h, vs)))
                    (pos + nat tlen)
      else if serial oid \<noteq> None
      then (if index oid = None then Fail KeyError
            else Continue (index(oid := None)) (serial(oid := None)) (pos + nat tlen))
      else Continue index serial (pos + nat tlen))"

definition scan_record :: "(bytes \<rightharpoonup> int) \<Rightarrow> serials \<Rightarrow> pyfile \<Rightarrow> bool \<Rightarrow> nat \<Rightarrow> scan" where
  "scan_record index serial f0 current pos =
     (let f = seek pos f0;
          (h, f) = read 27 f;
          tlen = (if length h = 27 \<and> h ! 8 \<in> set ''vni'' then h_tlen h else - 1);
          vlen = h_vlen h;
          dlen = h_dlen h
      in if tlen \<le> 0 \<or> vlen < 0 \<or> dlen < 0 \<or> vlen + dlen > tlen then Stop
         else
           let oid = take 8 h
           in if h ! 8 = CHR ''v'' \<and> vlen \<noteq> 0
              then
                let f = seek_cur (dlen + vlen) f;
                    (b4, f) = read 4 f
                in if length b4 \<noteq> 4 then Stop
                   else
                     let vdlen = unpack_i b4
                     in if vlen + dlen + 42 + vdlen > tlen then Stop
                        else if \<not> seek_cur_ok vdlen f then Fail IOError
                        else
                          let f = seek_cur vdlen f;
                              (vs, f) = read 8 f;
                              (t4, f) = read 4 f
                          in if t4 \<noteq> take 4 (drop 9 h) then Stop
                             else scan_enter index serial current pos oid h (Some vs) tlen
              else scan_enter index serial current pos oid h None tlen)"

lemma scan_enter_Continue:
  "scan_enter index serial current pos oid h vs tlen = Continue i s pos' \<Longrightarrow> pos' = pos + nat tlen"
  by (auto simp: scan_enter_def split: if_splits)

lemma scan_record_Continue:
  assumes "scan_record index serial f current pos = Continue i s pos'"
  shows "pos < pos' \<and> pos + 27 \<le> length (content f)"
proof -
  obtain h g where r: "read 27 (seek pos f) = (h, g)"
    by (cases "read 27 (seek pos f)")
  have h: "h = take 27 (drop pos (content f))"
    using r by (simp add: read_def seek_def Let_def)
  let ?tlen = "if length h = 27 \<and> h ! 8 \<in> set ''vni'' then h_tlen h else - 1"
  have pos_t: "0 < ?tlen"
    using assms r by (auto simp: scan_record_def Let_def split: if_splits)
  then have len: "length h = 27"
    by (auto split: if_splits)
  have "pos' = pos + nat ?tlen"
    using assms r
    by (auto simp: scan_record_def Let_def split: if_splits prod.splits
             dest: scan_enter_Continue)
  with pos_t have "pos < pos'" by simp
  moreover from len h have "pos + 27 \<le> length (content f)" by simp
  ultimately show ?thesis by simp
qed

function read_index_loop ::
  "(bytes \<rightharpoonup> int) \<Rightarrow> serials \<Rightarrow> pyfile \<Rightarrow> bool \<Rightarrow> nat
     \<Rightarrow> error + ((bytes \<rightharpoonup> int) \<times> serials \<times> nat)" where
  "read_index_loop index serial f current pos =
     (case scan_record index serial f current pos of
        Stop \<Rightarrow> Inr (index, serial, pos)
      | Fail e \<Rightarrow> Inl e
      | Continue index' serial' pos' \<Rightarrow> read_index_loop index' serial' f current pos')"
  by pat_completeness auto
termination
proof (relation "measure (\<lambda>(index, serial, f, current, pos). length (content f) - pos)")
  show "wf (measure (\<lambda>(index, serial, f, current, pos). length (content f) - pos))"
    by simp
next
  fix index :: "bytes \<rightharpoonup> int" and serial :: serials and f current pos i s pos'
  assume "scan_record index serial f current pos = Continue i s pos'"
  from scan_record_Continue [OF this]
  show "((i, s, f, current, pos'), (index, serial, f, current, pos))
          \<in> measure (\<lambda>(index, serial, f, current, pos). length (content f) - pos)"
    by (simp, arith)
qed

text \<open>
  After the loop \<open>read_index\<close> seeks to \<open>pos\<close> and truncates the file there; a position
  past the end extends the file with zero bytes, as \<open>ftruncate\<close> does.
\<close>

definition truncate :: "pyfile \<Rightarrow> pyfile" where
  "truncate f = f\<lparr>content := take (fpos f) (content f)
                              @ replicate (fpos f - length (content f)) zero_byte\<rparr>"

definition read_index ::
  "(bytes \<rightharpoonup> int) \<Rightarrow> serials \<Rightarrow> pyfile \<Rightarrow> bool
     \<Rightarrow> error + ((bytes \<rightharpoonup> int) \<times> serials \<times> pyfile \<times> nat)" where
  "read_index index serial f current =
     (case read_index_loop index serial f current 4 of
        Inl e \<Rightarrow> Inl e
      | Inr (index', serial', pos) \<Rightarrow> Inr (index', serial', truncate (seek pos f), pos))"

text \<open>
  \<open>open()\<close> scans the file that is not current first, when there is one, then the
  current file, and returns the serials with the new state.
\<close>

definition open_cache :: "cache \<Rightarrow> error + (serials \<times> cache)" where
  "open_cache st =
     (let current = self_current st
      in case (case self_f st (\<not> current) of
                 None \<Rightarrow> Inr (Map.empty, Map.empty, st)
               | Some f \<Rightarrow>
                   (case read_index Map.empty Map.empty f (\<not> current) of
                      Inl e \<Rightarrow> Inl e
                    | Inr (index, serial, f', pos) \<Rightarrow>
                        Inr (index, serial, set_f (\<not> current) f' st)))
         of Inl e \<Rightarrow> Inl e
          | Inr (index, serial, st) \<Rightarrow>
              (case self_f st current of
                 None \<Rightarrow> Inl AttributeError
               | Some f \<Rightarrow>
                   (case read_index index serial f current of
                      Inl e \<Rightarrow> Inl e
                    | Inr (index', serial', f', pos) \<Rightarrow>
                        Inr (serial',
                             (set_f current f' st)\<lparr>self_index := index', self_pos := pos\<rparr>))))"

text \<open>
  \<open>fresh size\<close> is the cache right after \<open>ClientCache(size=size)\<close> and \<open>open()\<close>: one
  temporary file with the magic string, an empty index and the append position 4
  (lemma \<open>open_init_temp\<close> below).
\<close>

definition fresh :: "int \<Rightarrow> cache" where
  "fresh size' = (init_temp size')\<lparr>self_pos := 4\<rparr>"

section \<open>Sequences of calls and the soundness of the index\<close>












section \<open>Opening a new cache\<close>

lemma open_init_temp: "open_cache (init_temp n) = Inr (Map.empty, fresh n)"
  by (simp add: open_cache_def init_temp_def read_index_def scan_record_def seek_def
      read_def write_file_def new_file_def magic_def Let_def set_f_def truncate_def
      fresh_def fun_eq_iff)

section \<open>Facts about packing and files\<close>

lemma pack_be_4:
  "pack_be 4 n = [char_of (n div 16777216), char_of (n div 65536), char_of (n div 256), char_of n]"
proof -
  have four: "(4::nat) = Suc (Suc (Suc (Suc 0)))" by simp
  have "pack_be (Suc (Suc (Suc (Suc 0)))) n
          = [char_of (n div 16777216), char_of (n div 65536), char_of (n div 256), char_of n]"
    by (simp flip: div_mult2_eq)
  then show ?thesis by (simp only: four)
qed

lemma pack_be_2: "pack_be 2 n = [char_of (n div 256), char_of n]"
proof -
  have two: "(2::nat) = Suc (Suc 0)" by simp
  have "pack_be (Suc (Suc 0)) n = [char_of (n div 256), char_of n]"
    by simp
  then show ?thesis by (simp only: two)
qed

lemma unpack_be_4:
  "unpack_be [a, b, c, d] = ((of_char a * 256 + of_char b) * 256 + of_char c) * 256 + of_char d"
  by (simp add: unpack_be_def)

lemma unpack_be_2: "unpack_be [a, b] = of_char a * 256 + of_char b"
  by (simp add: unpack_be_def)

lemma content_seek [simp]: "content (seek n f) = content f"
  by (simp add: seek_def)

lemma content_seek_cur [simp]: "content (seek_cur d f) = content f"
  by (simp add: seek_cur_def)

lemma read_contentD: "read n f = (bs, f') \<Longrightarrow> content f' = content f"
  by (auto simp: read_def Let_def)

text \<open>The equations that evaluate the operations on a concrete cache.\<close>

lemmas eval_defs = store_def store_internal_def store_record_def load_def fresh_def
  init_temp_def write_file_def new_file_def magic_def seek_def seek_cur_def seek_cur_ok_def
  read_def set_f_def del_index_def header_ok_def h_tlen_def h_vlen_def h_dlen_def
  unpack_i_def unpack_H_def pack_be_4 pack_be_2 unpack_be_4 unpack_be_2 zeros8_def
  zero_byte_def Let_def invalidate_def

section \<open>What \<open>load\<close> leaves alone\<close>

lemma load_shape:
  assumes "load oid version st = (r, st')"
  shows "st' = st \<or>
         (\<exists>p f0 f. self_index st oid = Some p \<and> self_f st (p < 0) = Some f0
             \<and> content f = content f0
             \<and> (st' = set_f (p < 0) f st \<or> st' = del_index oid (set_f (p < 0) f st)))"
proof (cases "self_index st oid")
  case None
  with assms show ?thesis by (simp add: load_def)
next
  case (Some p)
  show ?thesis
  proof (cases "self_f st (p < 0)")
    case None
    with Some assms show ?thesis by (simp add: load_def)
  next
    case f0: (Some f0)
    obtain h f1 where r1: "read 27 (seek (nat \<bar>p\<bar>) f0) = (h, f1)"
      by (cases "read 27 (seek (nat \<bar>p\<bar>) f0)")
    then have c1: "content f1 = content f0"
      by (auto dest: read_contentD)
    have "\<exists>f. content f = content f1
             \<and> (st' = set_f (p < 0) f st \<or> st' = del_index oid (set_f (p < 0) f st))"
      using assms Some f0 r1
      apply (simp add: load_def Let_def split: if_splits prod.splits)
      apply (auto dest!: read_contentD)
      done
    with Some f0 c1 show ?thesis by auto
  qed
qed

text \<open>
  Claim C10. \<open>load(oid, version)\<close> changes the contents of neither file and leaves the
  append position, the current-file selector, the limit and the file names as they
  were, whatever it returns or raises. In the index it can only remove the entry of the
  \<open>oid\<close> it was asked for: every other entry stays, and the entry of \<open>oid\<close> is either
  unchanged or gone.
\<close>

theorem load_frame:
  "load oid version st = (r, st') \<Longrightarrow>
     (\<forall>b. map_option content (self_f st' b) = map_option content (self_f st b))
   \<and> self_pos st' = self_pos st
   \<and> self_current st' = self_current st
   \<and> self_limit st' = self_limit st
   \<and> self_p st' = self_p st
   \<and> (\<forall>oid'. oid' \<noteq> oid \<longrightarrow> self_index st' oid' = self_index st oid')
   \<and> (self_index st' oid = self_index st oid \<or> self_index st' oid = None)"
  by (drule load_shape) (auto simp: set_f_def del_index_def)

theorem load_frame_witness:
  "let st = snd (store ''AAAAAAAA'' ''abc'' ''12345678'' [] None None (fresh 2000));
       st' = snd (load ''AAAAAAAA'' [] st)
   in load ''AAAAAAAA'' [] st = (Inr (Some (''abc'', ''12345678'')), st')
    \<and> (\<forall>b. map_option content (self_f st' b) = map_option content (self_f st b))
    \<and> self_pos st' = 38
    \<and> self_current st' = False
    \<and> self_index st' ''AAAAAAAA'' = Some 4"
proof -
  let ?st = "snd (store ''AAAAAAAA'' ''abc'' ''12345678'' [] None None (fresh 2000))"
  have l: "load ''AAAAAAAA'' [] ?st = (Inr (Some (''abc'', ''12345678'')), snd (load ''AAAAAAAA'' [] ?st))"
    by (rule prod_eqI) (simp_all add: eval_defs)
  have "self_index (snd (load ''AAAAAAAA'' [] ?st)) ''AAAAAAAA'' = Some 4"
    by (simp add: eval_defs)
  moreover have "self_pos ?st = 38" "self_current ?st = False"
    by (simp_all add: eval_defs)
  ultimately show ?thesis
    using load_frame [OF l] l by (simp add: Let_def)
qed

section \<open>Invalidation\<close>

text \<open>
  Claim C1. After \<open>store\<close> of a record for an oid at offset 4 of file 0,
  \<open>invalidate(oid, "")\<close> removes the oid from the index and a later \<open>load\<close> returns
  \<open>None\<close>; but the byte it writes lands at record offset 16, inside the \<open>dlen\<close> field, and
  the status byte at record offset 8 is still \<open>v\<close>.
\<close>

theorem invalidate_nonversion_writes_offset_16:
  "let st1 = snd (store ''AAAAAAAA'' ''abc'' ''12345678'' [] None None (fresh 2000));
       st2 = snd (invalidate ''AAAAAAAA'' [] st1)
   in self_index st1 ''AAAAAAAA'' = Some 4
    \<and> fst (invalidate ''AAAAAAAA'' [] st1) = Inr ()
    \<and> self_index st2 ''AAAAAAAA'' = None
    \<and> map_option (\<lambda>f. content f ! (4 + 8)) (self_f st1 False) = Some CHR ''v''
    \<and> map_option (\<lambda>f. content f ! (4 + 8)) (self_f st2 False) = Some CHR ''v''
    \<and> map_option (\<lambda>f. content f ! (4 + 16)) (self_f st2 False) = Some CHR ''i''
    \<and> fst (load ''AAAAAAAA'' [] st2) = Inr None"
  by (simp add: eval_defs)

text \<open>
  Claim C2. After \<open>store\<close> of a record with a non-version pair and a version section,
  \<open>invalidate(oid, "v1")\<close> keeps the index entry, but writes \<open>n\<close> at record offset 16
  and leaves the status byte \<open>v\<close>: the \<open>dlen\<close> field now exceeds \<open>tlen\<close>, so the next
  \<open>load(oid, "")\<close> finds the header malformed, returns \<open>None\<close> instead of the
  non-version pair and drops the index entry.
\<close>

theorem invalidate_version_writes_offset_16:
  "let st1 = snd (store ''AAAAAAAA'' ''abc'' ''12345678'' ''v1'' (Some ''ABC'') (Some ''87654321'')
                    (fresh 2000));
       st2 = snd (invalidate ''AAAAAAAA'' ''v1'' st1)
   in self_index st1 ''AAAAAAAA'' = Some 4
    \<and> fst (load ''AAAAAAAA'' [] st1) = Inr (Some (''abc'', ''12345678''))
    \<and> fst (invalidate ''AAAAAAAA'' ''v1'' st1) = Inr ()
    \<and> self_index st2 ''AAAAAAAA'' = Some 4
    \<and> map_option (\<lambda>f. content f ! (4 + 8)) (self_f st2 False) = Some CHR ''v''
    \<and> map_option (\<lambda>f. content f ! (4 + 16)) (self_f st2 False) = Some CHR ''n''
    \<and> fst (load ''AAAAAAAA'' [] st2) = Inr None
    \<and> self_index (snd (load ''AAAAAAAA'' [] st2)) ''AAAAAAAA'' = None"
  by (simp add: eval_defs)

section \<open>Rotation\<close>

text \<open>
  Claim C7. \<open>checkSize(n)\<close> rotates exactly when the append position plus \<open>n\<close> exceeds the
  limit. A rotation makes the other file the current one, replaces it by a file that
  holds only the four magic bytes, and sets the append position to 4; the file that was
  current, the index, the limit and the file names are left as they were. Without
  rotation the state does not change at all.
\<close>

theorem checkSize_rotation:
  "(int (self_pos st) + n > self_limit st \<longrightarrow>
      self_current (checkSize n st) = (\<not> self_current st)
    \<and> self_f (checkSize n st) (\<not> self_current st) = Some \<lparr>content = magic, fpos = 4\<rparr>
    \<and> self_pos (checkSize n st) = 4
    \<and> self_f (checkSize n st) (self_current st) = self_f st (self_current st)
    \<and> self_index (checkSize n st) = self_index st
    \<and> self_limit (checkSize n st) = self_limit st
    \<and> self_p (checkSize n st) = self_p st)
 \<and> (\<not> int (self_pos st) + n > self_limit st \<longrightarrow> checkSize n st = st)"
  by (simp add: checkSize_def Let_def set_f_def new_file_def write_file_def magic_def)

theorem checkSize_rotation_witness:
  "int (self_pos (fresh 60)) + 31 > self_limit (fresh 60)
   \<and> self_current (checkSize 31 (fresh 60)) = True
   \<and> self_f (checkSize 31 (fresh 60)) True = Some \<lparr>content = ''ZEC0'', fpos = 4\<rparr>
   \<and> self_f (checkSize 31 (fresh 60)) False = Some \<lparr>content = ''ZEC0'', fpos = 4\<rparr>
   \<and> self_pos (checkSize 31 (fresh 60)) = 4
   \<and> \<not> int (self_pos (fresh 2000)) + 31 > self_limit (fresh 2000)
   \<and> checkSize 31 (fresh 2000) = fresh 2000"
  using checkSize_rotation [of "fresh 60" 31] checkSize_rotation [of "fresh 2000" 31]
  by (simp add: fresh_def init_temp_def magic_def write_file_def new_file_def)

section \<open>The scanner's check of the trailing length\<close>

lemma char_of_eq_iff: "char_of (n::nat) = c \<longleftrightarrow> n mod 256 = of_char c"
proof
  assume "char_of n = c"
  then have "of_char (char_of n) = (of_char c :: nat)" by simp
  then show "n mod 256 = of_char c" by simp
next
  assume "n mod 256 = of_char c"
  then have "char_of (n mod 256) = char_of (of_char c :: nat)" by simp
  then show "char_of n = c" by simp
qed

text \<open>
  Claim C4, as stated: for a record with status \<open>v\<close> and a version, the scanner requires
  the 4 bytes after the version serial to equal the first 4 bytes of the header (the
  first half of the oid) and stops the scan if they differ. The record that \<open>store\<close>
  writes for oid \<open>AAAAAAAA\<close> ends in its length, which differs from \<open>AAAA\<close> and equals
  bytes 9 to 12 of the header; the scanner accepts it, enters it in the index and moves
  on to position 55.
\<close>

theorem scanner_accepts_trailer_unlike_oid:
  "let st = snd (store ''AAAAAAAA'' ''abc'' ''12345678'' ''v1'' (Some ''ABC'') (Some ''87654321'')
                   (fresh 2000));
       f = the (self_f st False)
   in take 4 (drop (4 + 47) (content f)) \<noteq> take 4 (drop 4 (content f))
    \<and> take 4 (drop (4 + 47) (content f)) = take 4 (drop (4 + 9) (content f))
    \<and> (case scan_record Map.empty Map.empty f False 4 of
          Continue index serial pos \<Rightarrow>
            index ''AAAAAAAA'' = Some 4
          \<and> serial ''AAAAAAAA'' = Some (''12345678'', Some ''87654321'')
          \<and> pos = 55
        | _ \<Rightarrow> False)"
  by (simp add: eval_defs scan_record_def scan_enter_def char_of_eq_iff)

text \<open>
  Claim C4, amended. For a record with status \<open>v\<close> and a version whose header passes
  the length tests, after reading \<open>vdlen\<close>, skipping the version data and reading the
  8-byte version serial, the scanner reads 4 bytes and compares them with bytes 9 to 12
  of the header, the \<open>tlen\<close> field (\<open>h[9:13]\<close>): it stops if they differ, and otherwise
  enters the record and continues at \<open>pos + tlen\<close>.
\<close>

theorem scanner_trailer_check:
  assumes "read 27 (seek pos f) = (h, f1)"
    and "length h = 27" and "h ! 8 = CHR ''v''" and "h_vlen h \<noteq> 0"
    and "0 < h_tlen h" and "0 \<le> h_dlen h" and "h_vlen h + h_dlen h \<le> h_tlen h"
    and "read 4 (seek_cur (h_dlen h + h_vlen h) f1) = (b4, f2)"
    and "length b4 = 4"
    and "h_vlen h + h_dlen h + 42 + unpack_i b4 \<le> h_tlen h"
    and "seek_cur_ok (unpack_i b4) f2"
    and "read 8 (seek_cur (unpack_i b4) f2) = (vs, f3)"
    and "read 4 f3 = (t4, f4)"
  shows "scan_record index serial f current pos =
           (if t4 = take 4 (drop 9 h)
            then Continue (index(take 8 h \<mapsto> (if current then - int pos else int pos)))
                          (serial(take 8 h \<mapsto> (drop 19 h, Some vs)))
                          (pos + nat (h_tlen h))
            else Stop)"
proof -
  have v: "0 \<le> h_vlen h"
    by (simp add: h_vlen_def unpack_H_def)
  show ?thesis
    using assms v by (simp add: scan_record_def scan_enter_def Let_def)
qed


theorem scanner_trailer_check_witness:
  "let st = snd (store ''AAAAAAAA'' ''abc'' ''12345678'' ''v1'' (Some ''ABC'') (Some ''87654321'')
                   (fresh 2000));
       f = the (self_f st False);
       r1 = read 27 (seek 4 f);
       h = fst r1;
       r2 = read 4 (seek_cur (h_dlen h + h_vlen h) (snd r1));
       r3 = read 8 (seek_cur (unpack_i (fst r2)) (snd r2));
       r4 = read 4 (snd r3)
   in length h = 27 \<and> h ! 8 = CHR ''v'' \<and> h_vlen h \<noteq> 0 \<and> 0 < h_tlen h \<and> 0 \<le> h_dlen h
    \<and> h_vlen h + h_dlen h \<le> h_tlen h
    \<and> length (fst r2) = 4
    \<and> h_vlen h + h_dlen h + 42 + unpack_i (fst r2) \<le> h_tlen h
    \<and> seek_cur_ok (unpack_i (fst r2)) (snd r2)
    \<and> fst r4 = take 4 (drop 9 h)
    \<and> scan_record Map.empty Map.empty f False 4
         = Continue (Map.empty(take 8 h \<mapsto> 4))
                    (Map.empty(take 8 h \<mapsto> (drop 19 h, Some (fst r3))))
                    (4 + nat (h_tlen h))"
proof -
  let ?st = "snd (store ''AAAAAAAA'' ''abc'' ''12345678'' ''v1'' (Some ''ABC'') (Some ''87654321'')
                   (fresh 2000))"
  let ?f = "the (self_f ?st False)"
  let ?r1 = "read 27 (seek 4 ?f)"
  let ?h = "fst ?r1"
  let ?r2 = "read 4 (seek_cur (h_dlen ?h + h_vlen ?h) (snd ?r1))"
  let ?r3 = "read 8 (seek_cur (unpack_i (fst ?r2)) (snd ?r2))"
  let ?r4 = "read 4 (snd ?r3)"
  have a1: "?r1 = (?h, snd ?r1)" by simp
  have a2: "length ?h = 27" by (simp add: eval_defs)
  have a3: "?h ! 8 = CHR ''v''" by (simp add: eval_defs)
  have a4: "h_vlen ?h \<noteq> 0" by (simp add: eval_defs)
  have a5: "0 < h_tlen ?h" by (simp add: eval_defs)
  have a6: "0 \<le> h_dlen ?h" by (simp add: eval_defs)
  have a7: "h_vlen ?h + h_dlen ?h \<le> h_tlen ?h" by (simp add: eval_defs)
  have a8: "?r2 = (fst ?r2, snd ?r2)" by simp
  have a9: "length (fst ?r2) = 4" by (simp add: eval_defs)
  have a10: "h_vlen ?h + h_dlen ?h + 42 + unpack_i (fst ?r2) \<le> h_tlen ?h"
    by (simp add: eval_defs)
  have a11: "seek_cur_ok (unpack_i (fst ?r2)) (snd ?r2)" by (simp add: eval_defs)
  have a12: "?r3 = (fst ?r3, snd ?r3)" by simp
  have a13: "?r4 = (fst ?r4, snd ?r4)" by simp
  have t: "fst ?r4 = take 4 (drop 9 ?h)" by (simp add: eval_defs)
  from scanner_trailer_check [OF a1 a2 a3 a4 a5 a6 a7 a8 a9 a10 a11 a12 a13,
      of Map.empty Map.empty False] t
  have "scan_record Map.empty Map.empty ?f False 4
         = Continue (Map.empty(take 8 ?h \<mapsto> 4))
                    (Map.empty(take 8 ?h \<mapsto> (drop 19 ?h, Some (fst ?r3))))
                    (4 + nat (h_tlen ?h))"
    by simp
  with a2 a3 a4 a5 a6 a7 a9 a10 a11 t show ?thesis
    unfolding Let_def by blast
qed

section \<open>Reading back a record written by \<open>_store\<close>\<close>

lemma length_pack_be [simp]: "length (pack_be k n) = k"
  by (induction k arbitrary: n) auto

lemma unpack_be_snoc: "unpack_be (xs @ [c]) = unpack_be xs * 256 + of_char c"
  by (simp add: unpack_be_def)

lemma unpack_be_pack_be: "unpack_be (pack_be k n) = n mod 256 ^ k"
proof (induction k arbitrary: n)
  case 0
  show ?case by (simp add: unpack_be_def)
next
  case (Suc k)
  have "unpack_be (pack_be (Suc k) n) = (n div 256 mod 256 ^ k) * 256 + n mod 256"
    by (simp add: unpack_be_snoc Suc)
  also have "\<dots> = n mod 256 ^ Suc k"
    by (simp add: mod_mult2_eq)
  finally show ?case .
qed

lemma unpack_i_pack: "n < 2 ^ 31 \<Longrightarrow> unpack_i (pack_be 4 n) = int n"
  by (simp add: unpack_i_def unpack_be_pack_be Let_def)

lemma unpack_H_pack: "n < 2 ^ 16 \<Longrightarrow> unpack_H (pack_be 2 n) = int n"
  by (simp add: unpack_H_def unpack_be_pack_be)

text \<open>
  The first 27 bytes that \<open>_store\<close> writes: oid, status \<open>v\<close>, \<open>tlen\<close>, \<open>vlen\<close>, \<open>dlen\<close>
  and the non-version serial.
\<close>

definition record_header :: "bytes \<Rightarrow> nat \<Rightarrow> nat \<Rightarrow> nat \<Rightarrow> bytes \<Rightarrow> bytes" where
  "record_header oid tlen vlen dlen s =
     oid @ ''v'' @ pack_be 4 tlen @ pack_be 2 vlen @ pack_be 4 dlen @ s"

lemma record_header_facts:
  assumes "length oid = 8" and "length s = 8"
  shows "length (record_header oid tlen vlen dlen s) = 27"
    and "record_header oid tlen vlen dlen s ! 8 = CHR ''v''"
    and "take 8 (record_header oid tlen vlen dlen s) = oid"
    and "take 4 (drop 9 (record_header oid tlen vlen dlen s)) = pack_be 4 tlen"
    and "take 2 (drop 13 (record_header oid tlen vlen dlen s)) = pack_be 2 vlen"
    and "take 4 (drop 15 (record_header oid tlen vlen dlen s)) = pack_be 4 dlen"
    and "drop 19 (record_header oid tlen vlen dlen s) = s"
  using assms by (simp_all add: record_header_def nth_append)


lemma load_plain_record:
  assumes idx: "self_index st oid = Some P"
    and fl: "self_f st (P < 0) = Some f"
    and lay: "content f = pre @ record_header oid tlen 0 (length p) s @ p @ tail"
    and pre: "length pre = nat \<bar>P\<bar>"
    and len: "length oid = 8" "length s = 8"
    and tl: "0 < tlen" "tlen < 2 ^ 31" "length p \<le> tlen"
  shows "fst (load oid version st) = (if p \<noteq> [] then Inr (Some (p, s)) else Inr None)"
proof -
  let ?H = "record_header oid tlen 0 (length p) s"
  note hf = record_header_facts [OF len, of tlen 0 "length p"]
  have p31: "length p < 2 ^ 31" using tl by simp
  have r1: "read 27 (seek (nat \<bar>P\<bar>) f) = (?H, f\<lparr>fpos := nat \<bar>P\<bar> + 27\<rparr>)"
    using hf(1) by (simp add: read_def seek_def lay pre Let_def)
  have ok: "header_ok ?H oid"
    using hf by (simp add: header_ok_def)
  have t: "h_tlen ?H = int tlen" "h_vlen ?H = 0" "h_dlen ?H = int (length p)"
    using hf tl p31 by (simp_all add: h_tlen_def h_vlen_def h_dlen_def unpack_i_pack unpack_H_pack)
  have r2: "read (int (length p)) (f\<lparr>fpos := nat \<bar>P\<bar> + 27\<rparr>)
              = (p, f\<lparr>fpos := nat \<bar>P\<bar> + 27 + length p\<rparr>)"
    using hf(1) by (simp add: read_def lay pre Let_def)
  show ?thesis
    using tl by (simp add: load_def idx fl r1 ok t r2 hf(2,7) Let_def)
qed


lemma load_version_record:
  assumes idx: "self_index st oid = Some P"
    and fl: "self_f st (P < 0) = Some f"
    and lay: "content f = pre @ record_header oid tlen (length V) (length p) s @ p
                @ V @ pack_be 4 (length pv) @ pv @ sv @ tail"
    and pre: "length pre = nat \<bar>P\<bar>"
    and len: "length oid = 8" "length s = 8"
    and lsv: "length sv = 8"
    and V: "V \<noteq> []" "length V < 2 ^ 16"
    and tl: "tlen < 2 ^ 31" "length V + length p \<le> tlen" "length pv < 2 ^ 31"
  shows "fst (load oid version st) =
           (if version = V then Inr (Some (pv, sv))
            else if p \<noteq> [] then Inr (Some (p, s)) else Inr None)"
proof -
  let ?H = "record_header oid tlen (length V) (length p) s"
  let ?k = "nat \<bar>P\<bar>"
  note hf = record_header_facts [OF len, of tlen "length V" "length p"]
  have p31: "length p < 2 ^ 31" using tl by simp
  have tpos: "0 < tlen" using V tl by (cases V) auto
  have r1: "read 27 (seek ?k f) = (?H, f\<lparr>fpos := ?k + 27\<rparr>)"
    using hf(1) by (simp add: read_def seek_def lay pre Let_def)
  have ok: "header_ok ?H oid"
    using hf by (simp add: header_ok_def)
  have t: "h_tlen ?H = int tlen" "h_vlen ?H = int (length V)" "h_dlen ?H = int (length p)"
    using hf tl p31 V by (simp_all add: h_tlen_def h_vlen_def h_dlen_def unpack_i_pack unpack_H_pack)
  have r2: "read (int (length p)) (f\<lparr>fpos := ?k + 27\<rparr>) = (p, f\<lparr>fpos := ?k + 27 + length p\<rparr>)"
    using hf(1) by (simp add: read_def lay pre Let_def)
  have r3: "read (int (length V)) (f\<lparr>fpos := ?k + 27 + length p\<rparr>)
              = (V, f\<lparr>fpos := ?k + 27 + length p + length V\<rparr>)"
    using hf(1) by (simp add: read_def lay pre Let_def)
  have r4: "read 4 (f\<lparr>fpos := ?k + 27 + length p + length V\<rparr>)
              = (pack_be 4 (length pv), f\<lparr>fpos := ?k + 27 + length p + length V + 4\<rparr>)"
    using hf(1) by (simp add: read_def lay pre Let_def)
  have r5: "read (int (length pv)) (f\<lparr>fpos := ?k + 27 + length p + length V + 4\<rparr>)
              = (pv, f\<lparr>fpos := ?k + 27 + length p + length V + 4 + length pv\<rparr>)"
    using hf(1) by (simp add: read_def lay pre Let_def)
  have r6: "read 8 (f\<lparr>fpos := ?k + 27 + length p + length V + 4 + length pv\<rparr>)
              = (sv, f\<lparr>fpos := ?k + 27 + length p + length V + 4 + length pv + 8\<rparr>)"
    using hf(1) lsv by (simp add: read_def lay pre Let_def)
  have sc1: "seek_cur (int (length p)) (f\<lparr>fpos := ?k + 27\<rparr>) = f\<lparr>fpos := ?k + 27 + length p\<rparr>"
    by (simp add: seek_cur_def nat_add_distrib)
  have f0: "p = [] \<Longrightarrow> f\<lparr>fpos := ?k + 27\<rparr> = f\<lparr>fpos := ?k + 27 + length p\<rparr>"
    by simp
  have bk_ok: "seek_cur_ok (- int (length p) - int (length V))
                   (f\<lparr>fpos := ?k + 27 + length p + length V\<rparr>)"
    by (simp add: seek_cur_ok_def)
  have bk: "seek_cur (- int (length p) - int (length V))
                   (f\<lparr>fpos := ?k + 27 + length p + length V\<rparr>) = f\<lparr>fpos := ?k + 27\<rparr>"
    by (simp add: seek_cur_def)
  show ?thesis
  proof (cases "version = []")
    case True
    then show ?thesis
      using tl tpos V by (simp add: load_def idx fl r1 ok t r2 hf(2,7) Let_def)
  next
    case False
    show ?thesis
    proof (cases "p = []")
      case True
      then show ?thesis
        using tl tpos V False r1 ok t hf(2,7) r3 r4 r5 r6
        by (simp add: load_def idx fl Let_def unpack_i_pack)
    next
      case pne: False
      then show ?thesis
        using tl tpos V False r1 ok t r2 r3 r4 r5 r6 sc1 bk bk_ok hf(2,7)
        by (simp add: load_def idx fl Let_def unpack_i_pack)
    qed
  qed
qed


lemma store_record_header:
  "store_record oid p s version pv sv tlen =
     record_header oid tlen (if version \<noteq> [] then length version else 0) (length p) s @ p
       @ (if version \<noteq> [] then version @ pack_be 4 (length pv) @ pv @ sv else [])
       @ pack_be 4 tlen"
  by (simp add: store_record_def record_header_def)

lemma store_internal_post:
  assumes fl: "self_f st (self_current st) = Some f"
    and pos: "0 < self_pos st"
    and s: "s \<noteq> []"
    and ver: "version \<noteq> [] \<longrightarrow> pv = Some pvb \<and> sv = Some svb"
    and tlen: "tlen = (if version \<noteq> [] then 31 + length p + length version + 12 + length pvb
                      else 31 + length p)"
    and bnd: "tlen < 2 ^ 32" "length version < 2 ^ 16"
  defines "P \<equiv> (if self_current st then - int (self_pos st) else int (self_pos st))"
  shows "fst (store_internal oid p s version pv sv st) = Inr ()"
    and "self_index (snd (store_internal oid p s version pv sv st)) oid = Some P"
    and "\<exists>F pre tail. self_f (snd (store_internal oid p s version pv sv st)) (P < 0) = Some F
           \<and> content F = pre @ store_record oid p s version pvb svb tlen @ tail
           \<and> length pre = nat \<bar>P\<bar>"
proof -
  let ?rec = "store_record oid p s version pvb svb tlen"
  let ?F = "write_file ?rec (seek (self_pos st) f)"
  let ?st' = "(set_f (self_current st) ?F st)\<lparr>self_index := (self_index st)(oid \<mapsto> P),
                 self_pos := self_pos st + tlen\<rparr>"
  have ne: "?rec \<noteq> []"
    by (simp add: store_record_def)
  have pvb: "version \<noteq> [] \<Longrightarrow> (case pv of None \<Rightarrow> [] | Some b \<Rightarrow> b) = pvb"
    and svb: "version \<noteq> [] \<Longrightarrow> (case sv of None \<Rightarrow> [] | Some b \<Rightarrow> b) = svb"
    using ver by auto
  have eq: "store_internal oid p s version pv sv st = (Inr (), ?st')"
  proof (cases "version = []")
    case True
    then show ?thesis
      using fl s tlen bnd
      by (simp add: store_internal_def Let_def P_def set_f_def store_record_def)
  next
    case False
    then show ?thesis
      using fl s ver tlen bnd
      by (auto simp: store_internal_def Let_def P_def set_f_def)
  qed
  show "fst (store_internal oid p s version pv sv st) = Inr ()"
    by (simp add: eq)
  show "self_index (snd (store_internal oid p s version pv sv st)) oid = Some P"
    by (simp add: eq)
  have sign: "(P < 0) = self_current st" and ab: "nat \<bar>P\<bar> = self_pos st"
    using pos by (auto simp: P_def)
  have c: "content ?F = (take (self_pos st) (content f)
                @ replicate (self_pos st - length (content f)) zero_byte)
              @ ?rec @ drop (self_pos st + length ?rec) (content f)"
    using ne by (simp add: write_file_def seek_def)
  have l: "length (take (self_pos st) (content f)
                @ replicate (self_pos st - length (content f)) zero_byte) = nat \<bar>P\<bar>"
    by (simp add: ab)
  have "self_f (snd (store_internal oid p s version pv sv st)) (P < 0) = Some ?F"
    by (simp add: eq sign set_f_def)
  with c l show "\<exists>F pre tail. self_f (snd (store_internal oid p s version pv sv st)) (P < 0) = Some F
           \<and> content F = pre @ store_record oid p s version pvb svb tlen @ tail
           \<and> length pre = nat \<bar>P\<bar>"
    by blast
qed

text \<open>
  Whenever \<open>_store\<close> gets past its packing (record shorter than \<open>2^32\<close>, version name
  shorter than \<open>2^16\<close>) it writes the record at the append position of the current file,
  points the index entry of the oid there and advances the append position.
\<close>

lemma store_internal_appends:
  assumes fl: "self_f st (self_current st) = Some f"
    and s: "s \<noteq> []"
    and ver: "version \<noteq> [] \<longrightarrow> pv = Some pvb \<and> sv = Some svb"
    and tlen: "tlen = (if version \<noteq> [] then 31 + length p + length version + 12 + length pvb
                      else 31 + length p)"
    and bnd: "tlen < 2 ^ 32" "length version < 2 ^ 16"
  shows "fst (store_internal oid p s version pv sv st) = Inr ()"
    and "self_index (snd (store_internal oid p s version pv sv st)) oid
           = Some (if self_current st then - int (self_pos st) else int (self_pos st))"
    and "self_pos (snd (store_internal oid p s version pv sv st)) = self_pos st + tlen"
    and "self_current (snd (store_internal oid p s version pv sv st)) = self_current st"
    and "\<exists>F pre tail. self_f (snd (store_internal oid p s version pv sv st)) (self_current st)
             = Some F
           \<and> content F = pre @ store_record oid p s version pvb svb tlen @ tail
           \<and> length pre = self_pos st"
proof -
  let ?rec = "store_record oid p s version pvb svb tlen"
  let ?F = "write_file ?rec (seek (self_pos st) f)"
  let ?P = "if self_current st then - int (self_pos st) else int (self_pos st)"
  let ?st' = "(set_f (self_current st) ?F st)\<lparr>self_index := (self_index st)(oid \<mapsto> ?P),
                 self_pos := self_pos st + tlen\<rparr>"
  have ne: "?rec \<noteq> []"
    by (simp add: store_record_def)
  have eq: "store_internal oid p s version pv sv st = (Inr (), ?st')"
  proof (cases "version = []")
    case True
    then show ?thesis
      using fl s tlen bnd
      by (simp add: store_internal_def Let_def set_f_def store_record_def)
  next
    case False
    then show ?thesis
      using fl s ver tlen bnd
      by (auto simp: store_internal_def Let_def set_f_def)
  qed
  show "fst (store_internal oid p s version pv sv st) = Inr ()"
    by (simp add: eq)
  show "self_index (snd (store_internal oid p s version pv sv st)) oid = Some ?P"
    by (simp add: eq)
  show "self_pos (snd (store_internal oid p s version pv sv st)) = self_pos st + tlen"
    by (simp add: eq)
  show "self_current (snd (store_internal oid p s version pv sv st)) = self_current st"
    by (simp add: eq set_f_def)
  have c: "content ?F = (take (self_pos st) (content f)
                @ replicate (self_pos st - length (content f)) zero_byte)
              @ ?rec @ drop (self_pos st + length ?rec) (content f)"
    using ne by (simp add: write_file_def seek_def)
  have l: "length (take (self_pos st) (content f)
                @ replicate (self_pos st - length (content f)) zero_byte) = self_pos st"
    by simp
  have "self_f (snd (store_internal oid p s version pv sv st)) (self_current st) = Some ?F"
    by (simp add: eq set_f_def)
  with c l show "\<exists>F pre tail.
           self_f (snd (store_internal oid p s version pv sv st)) (self_current st) = Some F
           \<and> content F = pre @ store_record oid p s version pvb svb tlen @ tail
           \<and> length pre = self_pos st"
    by blast
qed

section \<open>Round trips\<close>

lemma store_internal_no_serial:
  "store_internal oid p [] version pv sv st = store_internal oid [] zeros8 version pv sv st"
  by (simp add: store_internal_def zeros8_def)

text \<open>
  Claim C5, as stated: after \<open>store(oid, data, s, "", None, None)\<close> a \<open>load(oid, "")\<close>
  returns \<open>(data, s)\<close> for every data string and every serial. With empty data the
  record has \<open>dlen = 0\<close> and \<open>load\<close> returns \<open>None\<close>; with an empty serial \<open>_store\<close>
  drops the data, and \<open>load\<close> returns \<open>None\<close> as well.
\<close>

theorem store_then_load_empty:
  "fst (load ''AAAAAAAA'' [] (snd (store ''AAAAAAAA'' [] ''12345678'' [] None None (fresh 2000))))
     = Inr None
   \<and> fst (load ''AAAAAAAA'' [] (snd (store ''AAAAAAAA'' ''abc'' [] [] None None (fresh 2000))))
     = Inr None"
  by (simp add: eval_defs)

text \<open>
  Claim C5, amended. On a cache whose current file is open and whose append position is
  positive, for an 8-byte oid, a serial that is 8 bytes long or empty, and data with
  \<open>31 + len(data) < 2^31\<close> (the length fields are read back as signed 32-bit numbers):
  \<open>store(oid, data, s, "", None, None)\<close> succeeds, and the following \<open>load(oid, "")\<close>
  returns exactly \<open>(data, s)\<close> when both data and serial are non-empty, and \<open>None\<close>
  otherwise.
\<close>

theorem store_then_load:
  assumes fl: "self_f st (self_current st) = Some f"
    and pos: "0 < self_pos st"
    and len: "length oid = 8" "length s = 8 \<or> s = []"
    and bnd: "31 + length data < 2 ^ 31"
  shows "fst (store oid data s [] None None st) = Inr ()
       \<and> fst (load oid [] (snd (store oid data s [] None None st)))
           = (if data \<noteq> [] \<and> s \<noteq> [] then Inr (Some (data, s)) else Inr None)"
proof -
  define p' where "p' = (if s = [] then [] else data)"
  define s' where "s' = (if s = [] then zeros8 else s)"
  have eq: "store oid data s [] None None st = store_internal oid p' s' [] None None st"
    by (simp add: store_def p'_def s'_def store_internal_no_serial)
  have s8: "length s' = 8" and sne: "s' \<noteq> []"
    using len by (auto simp: s'_def zeros8_def)
  have b: "31 + length p' < 2 ^ 31" using bnd by (simp add: p'_def)
  let ?P = "if self_current st then - int (self_pos st) else int (self_pos st)"
  note post = store_internal_post [OF fl pos sne, of "[]" None "[]" None "[]"
      "31 + length p'" p' oid]
  have ok: "fst (store_internal oid p' s' [] None None st) = Inr ()"
    using post(1) b by simp
  have idx: "self_index (snd (store_internal oid p' s' [] None None st)) oid = Some ?P"
    using post(2) b by simp
  obtain F pre tail where
    F: "self_f (snd (store_internal oid p' s' [] None None st)) (?P < 0) = Some F"
    and c: "content F = pre @ store_record oid p' s' [] [] [] (31 + length p') @ tail"
    and pre: "length pre = nat \<bar>?P\<bar>"
    using post(3) b by auto
  have c': "content F = pre @ record_header oid (31 + length p') 0 (length p') s' @ p'
              @ (pack_be 4 (31 + length p') @ tail)"
    using c by (simp add: store_record_header)
  have "fst (load oid [] (snd (store_internal oid p' s' [] None None st)))
          = (if p' \<noteq> [] then Inr (Some (p', s')) else Inr None)"
    using load_plain_record [OF idx F c' pre len(1) s8] b by simp
  then show ?thesis
    using ok by (auto simp: eq p'_def s'_def)
qed


theorem store_then_load_witness:
  "self_f (fresh 2000) (self_current (fresh 2000)) = Some \<lparr>content = ''ZEC0'', fpos = 4\<rparr>
   \<and> 0 < self_pos (fresh 2000)
   \<and> length ''AAAAAAAA'' = 8 \<and> length ''12345678'' = 8
   \<and> 31 + length ''abc'' < (2::nat) ^ 31
   \<and> fst (store ''AAAAAAAA'' ''abc'' ''12345678'' [] None None (fresh 2000)) = Inr ()
   \<and> fst (load ''AAAAAAAA'' []
             (snd (store ''AAAAAAAA'' ''abc'' ''12345678'' [] None None (fresh 2000))))
        = Inr (Some (''abc'', ''12345678''))"
proof -
  have a: "self_f (fresh 2000) (self_current (fresh 2000)) = Some \<lparr>content = ''ZEC0'', fpos = 4\<rparr>"
    by (simp add: eval_defs)
  have b: "0 < self_pos (fresh 2000)"
    by (simp add: eval_defs)
  have c: "length ''AAAAAAAA'' = 8" "length ''12345678'' = 8 \<or> ''12345678'' = []"
    by simp_all
  have d: "31 + length ''abc'' < (2::nat) ^ 31"
    by simp
  show ?thesis
    using store_then_load [OF a b c d] a b by simp
qed

text \<open>
  Claim C6, as stated: after \<open>store(oid, d, s, V, dv, sv)\<close>, \<open>load(oid, "")\<close> returns
  \<open>(d, s)\<close> for every non-version pair. With empty \<open>d\<close> it returns \<open>None\<close>.
\<close>

theorem store_version_then_load_empty:
  "fst (load ''AAAAAAAA'' []
          (snd (store ''AAAAAAAA'' [] ''12345678'' ''v1'' (Some ''ABC'') (Some ''87654321'')
                 (fresh 2000))))
     = Inr None"
  by (simp add: eval_defs)

text \<open>
  Claim C6, amended. On a cache whose current file is open and whose append position is
  positive, for an 8-byte oid, 8-byte serials \<open>s\<close> and \<open>sv\<close>, a non-empty version name
  \<open>V\<close> shorter than \<open>2^16\<close> and a record shorter than \<open>2^31\<close>: after
  \<open>store(oid, d, s, V, dv, sv)\<close>, \<open>load(oid, V)\<close> returns \<open>(dv, sv)\<close>, and \<open>load(oid, "")\<close>
  and \<open>load(oid, V')\<close> for every \<open>V'\<close> other than \<open>V\<close> return \<open>(d, s)\<close> if \<open>d\<close> is not
  empty and \<open>None\<close> otherwise.
\<close>

theorem store_version_then_load:
  assumes fl: "self_f st (self_current st) = Some f"
    and pos: "0 < self_pos st"
    and len: "length oid = 8" "length s = 8" "length sv = 8"
    and V: "V \<noteq> []" "length V < 2 ^ 16"
    and bnd: "31 + length d + length V + 12 + length dv < 2 ^ 31"
  shows "fst (store oid d s V (Some dv) (Some sv) st) = Inr ()
       \<and> fst (load oid V (snd (store oid d s V (Some dv) (Some sv) st))) = Inr (Some (dv, sv))
       \<and> fst (load oid [] (snd (store oid d s V (Some dv) (Some sv) st)))
           = (if d \<noteq> [] then Inr (Some (d, s)) else Inr None)
       \<and> (\<forall>V'. V' \<noteq> V \<longrightarrow>
            fst (load oid V' (snd (store oid d s V (Some dv) (Some sv) st)))
              = (if d \<noteq> [] then Inr (Some (d, s)) else Inr None))"
proof -
  let ?tlen = "31 + length d + length V + 12 + length dv"
  let ?st' = "snd (store_internal oid d s V (Some dv) (Some sv) st)"
  let ?P = "if self_current st then - int (self_pos st) else int (self_pos st)"
  have sne: "s \<noteq> []" using len by auto
  note post = store_internal_post [OF fl pos sne, of V "Some dv" dv "Some sv" sv ?tlen d oid]
  have ok: "fst (store_internal oid d s V (Some dv) (Some sv) st) = Inr ()"
    using post(1) V bnd by simp
  have idx: "self_index ?st' oid = Some ?P"
    using post(2) V bnd by simp
  obtain F pre tail where
    F: "self_f ?st' (?P < 0) = Some F"
    and c: "content F = pre @ store_record oid d s V dv sv ?tlen @ tail"
    and pre: "length pre = nat \<bar>?P\<bar>"
    using post(3) V bnd by auto
  have c': "content F = pre @ record_header oid ?tlen (length V) (length d) s @ d
              @ V @ pack_be 4 (length dv) @ dv @ sv @ (pack_be 4 ?tlen @ tail)"
    using c V by (simp add: store_record_header)
  have l: "fst (load oid version ?st') =
           (if version = V then Inr (Some (dv, sv))
            else if d \<noteq> [] then Inr (Some (d, s)) else Inr None)" for version
    using load_version_record [OF idx F c' pre len(1,2,3) V] bnd by simp
  show ?thesis
    using ok l V by (simp add: store_def)
qed


theorem store_version_then_load_witness:
  "let st = snd (store ''AAAAAAAA'' ''abc'' ''12345678'' ''v1'' (Some ''ABC'') (Some ''87654321'')
                   (fresh 2000))
   in self_f (fresh 2000) (self_current (fresh 2000)) = Some \<lparr>content = ''ZEC0'', fpos = 4\<rparr>
    \<and> 0 < self_pos (fresh 2000)
    \<and> ''v1'' \<noteq> [] \<and> ''v2'' \<noteq> ''v1''
    \<and> fst (load ''AAAAAAAA'' ''v1'' st) = Inr (Some (''ABC'', ''87654321''))
    \<and> fst (load ''AAAAAAAA'' [] st) = Inr (Some (''abc'', ''12345678''))
    \<and> fst (load ''AAAAAAAA'' ''v2'' st) = Inr (Some (''abc'', ''12345678''))"
proof -
  have a: "self_f (fresh 2000) (self_current (fresh 2000)) = Some \<lparr>content = ''ZEC0'', fpos = 4\<rparr>"
    by (simp add: eval_defs)
  have b: "0 < self_pos (fresh 2000)"
    by (simp add: eval_defs)
  have c: "length ''AAAAAAAA'' = 8" "length ''12345678'' = 8" "length ''87654321'' = 8"
    by simp_all
  have d: "''v1'' \<noteq> []" "length ''v1'' < (2::nat) ^ 16"
    by simp_all
  have e: "31 + length ''abc'' + length ''v1'' + 12 + length ''ABC'' < (2::nat) ^ 31"
    by simp
  have f: "''v2'' \<noteq> ''v1''" by simp
  from store_version_then_load [OF a b c d e] f a b show ?thesis
    by (simp add: Let_def)
qed

section \<open>\<open>update\<close> with a version\<close>


lemma h_vlen_nonneg [simp]: "\<not> h_vlen h < 0"
  by (simp add: h_vlen_def unpack_H_def)









section \<open>Stale index entries\<close>

text \<open>
  Claim C8, as stated: whenever \<open>load\<close>, \<open>modifiedInVersion\<close>, \<open>update\<close> or \<open>invalidate\<close>
  finds at the cached offset a record whose first 8 bytes differ from the oid, that
  operation drops the index entry. After two rotations the entry of an oid stored in
  file 0 points into a file that holds only the magic string, and \<open>invalidate\<close> returns
  without touching the index: the entry is still there.
\<close>

theorem invalidate_keeps_stale_entry:
  "let st = checkSize 34 (checkSize 34
              (snd (store ''AAAAAAAA'' ''abc'' ''12345678'' [] None None (fresh 60))))
   in self_index st ''AAAAAAAA'' = Some 4
    \<and> map_option content (self_f st False) = Some ''ZEC0''
    \<and> fst (invalidate ''AAAAAAAA'' [] st) = Inr ()
    \<and> self_index (snd (invalidate ''AAAAAAAA'' [] st)) ''AAAAAAAA'' = Some 4"
  by (simp add: eval_defs checkSize_def)

text \<open>
  Claim C8, amended. When the 27 bytes at the cached offset fail the header test (short
  read, status not \<open>n\<close> or \<open>v\<close>, other oid) or carry inconsistent lengths:
  \<^item> \<open>load\<close> and \<open>modifiedInVersion\<close> return \<open>None\<close> and remove the entry;
  \<^item> \<open>update\<close> with a non-empty version does not remove the entry: it runs
    \<open>_store(oid, '', '', version, data, serial)\<close>, and when the current file is open, the
    version name is shorter than \<open>2^16\<close> and the record \<open>43 + len(version) + len(data)\<close> is
    shorter than \<open>2^32\<close>, it succeeds, writes that record (empty non-version half) at the
    append position of the current file, points the entry of the oid at it and advances
    the append position by the length of the record;
  \<^item> \<open>invalidate\<close>, when the first 8 bytes differ from the oid, returns without changing
    the index or the contents of a file.
\<close>

theorem stale_entry_policy:
  assumes "self_index st oid = Some p" and "self_f st (p < 0) = Some f0"
    and "read 27 (seek (nat \<bar>p\<bar>) f0) = (h, f1)"
    and "\<not> header_ok h oid \<or> h_tlen h \<le> 0 \<or> h_dlen h < 0 \<or> h_vlen h + h_dlen h > h_tlen h"
  shows "load oid version st = (Inr None, del_index oid (set_f (p < 0) f1 st))
       \<and> modifiedInVersion oid st = (Inr None, del_index oid (set_f (p < 0) f1 st))
       \<and> (version \<noteq> [] \<longrightarrow>
            update oid serial version data st
              = store_internal oid [] [] version (Some data) (Some serial) (set_f (p < 0) f1 st)
          \<and> (self_f st (self_current st) \<noteq> None \<and> length version < 2 ^ 16
                \<and> 43 + length version + length data < 2 ^ 32 \<longrightarrow>
                fst (update oid serial version data st) = Inr ()
              \<and> self_index (snd (update oid serial version data st)) oid
                  = Some (if self_current st then - int (self_pos st) else int (self_pos st))
              \<and> self_pos (snd (update oid serial version data st))
                  = self_pos st + (43 + length version + length data)
              \<and> (\<exists>F pre tail.
                    self_f (snd (update oid serial version data st)) (self_current st) = Some F
                  \<and> content F = pre @ store_record oid [] zeros8 version data serial
                                        (43 + length version + length data) @ tail
                  \<and> length pre = self_pos st)))
       \<and> (take 8 h \<noteq> oid \<longrightarrow>
            fst (invalidate oid version st) = Inr ()
          \<and> self_index (snd (invalidate oid version st)) = self_index st
          \<and> (\<forall>b. map_option content (self_f (snd (invalidate oid version st)) b)
                    = map_option content (self_f st b)))"
proof -
  let ?st2 = "set_f (p < 0) f1 st"
  have l: "load oid version st = (Inr None, del_index oid ?st2)"
    using assms by (auto simp: load_def Let_def)
  have m: "modifiedInVersion oid st = (Inr None, del_index oid ?st2)"
    using assms by (auto simp: modifiedInVersion_def Let_def)
  have u: "version \<noteq> [] \<Longrightarrow> update oid serial version data st
              = store_internal oid [] [] version (Some data) (Some serial) ?st2"
    using assms by (auto simp: update_def Let_def)
  have a: "fst (update oid serial version data st) = Inr ()
         \<and> self_index (snd (update oid serial version data st)) oid
             = Some (if self_current st then - int (self_pos st) else int (self_pos st))
         \<and> self_pos (snd (update oid serial version data st))
             = self_pos st + (43 + length version + length data)
         \<and> (\<exists>F pre tail.
               self_f (snd (update oid serial version data st)) (self_current st) = Some F
             \<and> content F = pre @ store_record oid [] zeros8 version data serial
                                   (43 + length version + length data) @ tail
             \<and> length pre = self_pos st)"
    if v: "version \<noteq> []"
      and c: "self_f st (self_current st) \<noteq> None \<and> length version < 2 ^ 16
                \<and> 43 + length version + length data < 2 ^ 32"
  proof -
    obtain f' where f': "self_f ?st2 (self_current ?st2) = Some f'"
      using c by (cases "self_current st = (p < 0)") (auto simp: set_f_def)
    have z: "zeros8 \<noteq> []" by (simp add: zeros8_def)
    have eq: "update oid serial version data st
                = store_internal oid [] zeros8 version (Some data) (Some serial) ?st2"
      using u [OF v] by (simp add: store_internal_no_serial)
    have cs: "self_current ?st2 = self_current st" "self_pos ?st2 = self_pos st"
      by (simp_all add: set_f_def)
    note ap = store_internal_appends [OF f' z, of version "Some data" data "Some serial" serial
        "43 + length version + length data" "[]" oid]
    show ?thesis
      using ap v c unfolding cs by (simp add: eq)
  qed
  have h: "h = take 27 (drop (nat \<bar>p\<bar>) (content f0))"
    using assms(3) by (simp add: read_def seek_def Let_def)
  have r8: "fst (read 8 (seek (nat \<bar>p\<bar>) f0)) = take 8 h"
    by (simp add: h read_def seek_def Let_def)
  have i: "take 8 h \<noteq> oid \<Longrightarrow>
            fst (invalidate oid version st) = Inr ()
          \<and> self_index (snd (invalidate oid version st)) = self_index st
          \<and> (\<forall>b. map_option content (self_f (snd (invalidate oid version st)) b)
                    = map_option content (self_f st b))"
    using assms(1,2) r8
    by (auto simp: invalidate_def Let_def case_prod_beta set_f_def read_def seek_def)
  from l m u a i show ?thesis by blast
qed

theorem stale_entry_policy_witness:
  "let st = checkSize 34 (checkSize 34
              (snd (store ''AAAAAAAA'' ''abc'' ''12345678'' [] None None (fresh 60))));
       f = \<lparr>content = ''ZEC0'', fpos = 4\<rparr>;
       st' = snd (update ''AAAAAAAA'' ''87654321'' ''v1'' ''ABC'' st)
   in self_index st ''AAAAAAAA'' = Some 4
    \<and> self_f st ((4::int) < 0) = Some f
    \<and> read 27 (seek (nat \<bar>4\<bar>) f) = ([], f)
    \<and> \<not> header_ok [] ''AAAAAAAA''
    \<and> self_f st (self_current st) \<noteq> None
    \<and> load ''AAAAAAAA'' ''v1'' st = (Inr None, del_index ''AAAAAAAA'' (set_f False f st))
    \<and> modifiedInVersion ''AAAAAAAA'' st = (Inr None, del_index ''AAAAAAAA'' (set_f False f st))
    \<and> fst (update ''AAAAAAAA'' ''87654321'' ''v1'' ''ABC'' st) = Inr ()
    \<and> self_index st' ''AAAAAAAA'' = Some 4
    \<and> self_pos st' = 52
    \<and> fst (invalidate ''AAAAAAAA'' ''v1'' st) = Inr ()
    \<and> self_index (snd (invalidate ''AAAAAAAA'' ''v1'' st)) = self_index st"
proof -
  let ?st = "checkSize 34 (checkSize 34
              (snd (store ''AAAAAAAA'' ''abc'' ''12345678'' [] None None (fresh 60))))"
  let ?f = "\<lparr>content = ''ZEC0'', fpos = 4\<rparr>"
  have a: "self_index ?st ''AAAAAAAA'' = Some 4"
    by (simp add: eval_defs checkSize_def)
  have b: "self_f ?st ((4::int) < 0) = Some ?f"
    by (simp add: eval_defs checkSize_def)
  have c: "read 27 (seek (nat \<bar>4\<bar>) ?f) = ([], ?f)"
    by (simp add: read_def seek_def)
  have d: "\<not> header_ok [] ''AAAAAAAA'' \<or> h_tlen [] \<le> 0 \<or> h_dlen [] < 0
             \<or> h_vlen [] + h_dlen [] > h_tlen []"
    by (simp add: header_ok_def)
  have e: "\<not> header_ok [] ''AAAAAAAA''"
    by (simp add: header_ok_def)
  have g: "self_f ?st (self_current ?st) \<noteq> None" "self_current ?st = False" "self_pos ?st = 4"
    by (simp_all add: eval_defs checkSize_def)
  have v: "''v1'' \<noteq> []"
    and k: "self_f ?st (self_current ?st) \<noteq> None \<and> length ''v1'' < (2::nat) ^ 16
              \<and> 43 + length ''v1'' + length ''ABC'' < (2::nat) ^ 32"
    and t: "take 8 [] \<noteq> ''AAAAAAAA''"
    using g by simp_all
  note p = stale_entry_policy [OF a b c d, of "''v1''" "''87654321''" "''ABC''"]
  note p1 = p [THEN conjunct1]
  note p2 = p [THEN conjunct2, THEN conjunct1]
  note p3 = p [THEN conjunct2, THEN conjunct2, THEN conjunct1, rule_format, OF v,
      THEN conjunct2, rule_format, OF k]
  note p4 = p [THEN conjunct2, THEN conjunct2, THEN conjunct2, rule_format, OF t]
  have u1: "fst (update ''AAAAAAAA'' ''87654321'' ''v1'' ''ABC'' ?st) = Inr ()"
    using p3 by blast
  have u2: "self_index (snd (update ''AAAAAAAA'' ''87654321'' ''v1'' ''ABC'' ?st)) ''AAAAAAAA''
              = Some 4"
    using p3 [THEN conjunct2, THEN conjunct1] g(2,3) by simp
  have u3: "self_pos (snd (update ''AAAAAAAA'' ''87654321'' ''v1'' ''ABC'' ?st)) = 52"
    using p3 [THEN conjunct2, THEN conjunct2, THEN conjunct1] g(3) by simp
  have p1': "load ''AAAAAAAA'' ''v1'' ?st = (Inr None, del_index ''AAAAAAAA'' (set_f False ?f ?st))"
    using p1 by simp
  have p2': "modifiedInVersion ''AAAAAAAA'' ?st
               = (Inr None, del_index ''AAAAAAAA'' (set_f False ?f ?st))"
    using p2 by simp
  show ?thesis
    unfolding Let_def
    using a b c e g(1) p1' p2' u1 u2 u3 p4 by blast
qed

section \<open>The index stays sound\<close>
































end
